theory Spec2Isabelle
  imports Complex_Main "HOL-Library.Word"
begin

section \<open>JavaScript strings and thrown values\<close>

text \<open>
  A JavaScript string is a sequence of UTF-16 code units. String literals of the source are
  written with \<open>js\<close>, which maps each ASCII character to its code unit.
\<close>

type_synonym cu = "16 word"

type_synonym jsstring = "cu list"

definition js :: "string \<Rightarrow> jsstring" where
  "js s = map of_char s"

text \<open>
  A thrown value is either an \<open>Error\<close> instance (with its \<open>name\<close> and \<open>message\<close>) or some
  other value, kept as what \<open>String(value)\<close> gives for it.
\<close>

datatype thrown = ErrorObj (errName: jsstring) (errMessage: jsstring) | NonError jsstring

definition newError :: "jsstring \<Rightarrow> thrown" where
  "newError msg = ErrorObj (js ''Error'') msg"

definition typeError :: "jsstring \<Rightarrow> thrown" where
  "typeError msg = ErrorObj (js ''TypeError'') msg"

text \<open>\<open>String(error)\<close>: \<open>Error.prototype.toString\<close> for an \<open>Error\<close> instance.\<close>

fun String_of :: "thrown \<Rightarrow> jsstring" where
  "String_of (ErrorObj name msg) =
     (if name = [] then msg else if msg = [] then name else name @ js '': '' @ msg)"
| "String_of (NonError s) = s"


section \<open>Rich-text description trees (\<open>src/lib/jira-ticket-retrieval.ts\<close>)\<close>

text \<open>
  A node of the tracker's document format as \<open>extractTextFromADF\<close> reads it: the properties
  \<open>type\<close>, \<open>text\<close> and \<open>content\<close>, each of which may be missing. \<open>ANull\<close> is the value \<open>null\<close>,
  on which a property access throws a \<open>TypeError\<close>.
\<close>

datatype adf =
    ANull
  | ANode (ntype: "jsstring option") (ntext: "jsstring option") (ncontent: "adf list option")

text \<open>
  The literal of line 77, \<open>text += '... '\<close>: the source file holds the characters
  U+00E2 U+20AC U+00A2 followed by a space.
\<close>

definition bulletLiteral :: jsstring where
  "bulletLiteral = [0xE2, 0x20AC, 0xA2, 0x20]"

definition lineBreak :: jsstring where
  "lineBreak = [0x0A]"

text \<open>Lines 62 to 78: what a node contributes before its children.\<close>

definition openingText :: "jsstring option \<Rightarrow> jsstring option \<Rightarrow> jsstring" where
  "openingText ty tx =
     (let text = [];
          text = (if ty = Some (js ''text'')
                  then (case tx of None \<Rightarrow> text | Some t \<Rightarrow> if t \<noteq> [] then text @ t else text)
                  else text);
          text = (if ty = Some (js ''paragraph'') then text @ lineBreak else text);
          text = (if ty = Some (js ''bulletList'') then text @ lineBreak else text);
          text = (if ty = Some (js ''listItem'') then text @ bulletLiteral else text)
      in text)"

text \<open>Lines 86 to 88: what a node contributes after its children.\<close>

definition closingText :: "jsstring option \<Rightarrow> jsstring" where
  "closingText ty =
     (if ty = Some (js ''paragraph'') \<or> ty = Some (js ''listItem'') then lineBreak else [])"

text \<open>
  The walk itself; \<open>extractContent\<close> is the loop of lines 80 to 84 over \<open>node.content\<close>, with the
  text built so far. A \<open>null\<close> anywhere in the tree makes the property access \<open>node.type\<close> throw.
\<close>

fun extractTextFromADF :: "adf \<Rightarrow> thrown + jsstring"
  and extractContent :: "adf list \<Rightarrow> jsstring \<Rightarrow> thrown + jsstring" where
  "extractTextFromADF ANull = Inl (typeError (js ''Cannot read properties of null''))"
| "extractTextFromADF (ANode ty tx ct) =
     (case (case ct of None \<Rightarrow> Inr (openingText ty tx)
                     | Some cs \<Rightarrow> extractContent cs (openingText ty tx)) of
        Inl e \<Rightarrow> Inl e
      | Inr text \<Rightarrow> Inr (text @ closingText ty))"
| "extractContent [] text = Inr text"
| "extractContent (child # rest) text =
     (case extractTextFromADF child of
        Inl e \<Rightarrow> Inl e
      | Inr t \<Rightarrow> extractContent rest (text @ t))"

section \<open>String operations of the runtime\<close>

text \<open>
  \<open>String.prototype.trim\<close> removes the WhiteSpace and LineTerminator code points of ECMAScript
  from both ends.
\<close>

definition isWhiteSpace :: "cu \<Rightarrow> bool" where
  "isWhiteSpace c \<longleftrightarrow>
     c \<in> {0x09, 0x0A, 0x0B, 0x0C, 0x0D, 0x20, 0xA0, 0x1680, 0x2028, 0x2029, 0x202F, 0x205F,
          0x3000, 0xFEFF} \<or> (0x2000 \<le> c \<and> c \<le> 0x200A)"

definition trim :: "jsstring \<Rightarrow> jsstring" where
  "trim s = rev (dropWhile isWhiteSpace (rev (dropWhile isWhiteSpace s)))"

text \<open>\<open>s.split('\n')\<close>: the pieces between line feeds; the empty string gives one empty piece.\<close>

fun splitLines :: "jsstring \<Rightarrow> jsstring list" where
  "splitLines [] = [[]]"
| "splitLines (c # cs) =
     (if c = 0x0A then [] # splitLines cs
      else (case splitLines cs of [] \<Rightarrow> [[c]] | l # ls \<Rightarrow> (c # l) # ls))"

definition startsWith :: "jsstring \<Rightarrow> jsstring \<Rightarrow> bool" where
  "startsWith s p \<longleftrightarrow> take (length p) s = p"

text \<open>\<open>xs.join(sep)\<close>\<close>

fun joinWith :: "jsstring \<Rightarrow> jsstring list \<Rightarrow> jsstring" where
  "joinWith sep [] = []"
| "joinWith sep [x] = x"
| "joinWith sep (x # y # ys) = x @ sep @ joinWith sep (y # ys)"

section \<open>Regular expressions\<close>

text \<open>
  The two regular expression literals of the source are written in a small syntax of patterns
  and run by a backtracking matcher that returns every way to match, in the order in which
  the runtime tries them (greedy quantifiers take the longer match first); the runtime's answer
  is the first one. A state is the input still to be read and the captures so far.
\<close>

datatype rx =
    Bol
  | Lit jsstring
  | Cls "cu \<Rightarrow> bool"
  | Seq rx rx
  | Star rx
  | Plus rx
  | Group nat rx

type_synonym captures = "nat \<Rightarrow> jsstring option"

type_synonym mstate = "jsstring \<times> captures"

text \<open>
  Zero or more greedy iterations of a matcher \<open>f\<close>. An iteration that reads nothing is
  rejected, as the runtime does, so every iteration shortens the input.
\<close>

function star :: "(mstate \<Rightarrow> mstate list) \<Rightarrow> mstate \<Rightarrow> mstate list" where
  "star f st =
     concat (map (star f) (filter (\<lambda>st'. length (fst st') < length (fst st)) (f st))) @ [st]"
  by pat_completeness auto
termination
  by (relation "measure (\<lambda>(f, st). length (fst st))") auto

declare star.simps [simp del]

primrec rmatch :: "rx \<Rightarrow> jsstring \<Rightarrow> mstate \<Rightarrow> mstate list" where
  "rmatch Bol s = (\<lambda>st. if length (fst st) = length s then [st] else [])"
| "rmatch (Lit w) s =
     (\<lambda>st. if take (length w) (fst st) = w then [(drop (length w) (fst st), snd st)] else [])"
| "rmatch (Cls p) s =
     (\<lambda>st. case fst st of [] \<Rightarrow> [] | c # r \<Rightarrow> if p c then [(r, snd st)] else [])"
| "rmatch (Seq a b) s = (\<lambda>st. concat (map (rmatch b s) (rmatch a s st)))"
| "rmatch (Star a) s = star (rmatch a s)"
| "rmatch (Plus a) s = (\<lambda>st. concat (map (star (rmatch a s)) (rmatch a s st)))"
| "rmatch (Group k a) s =
     (\<lambda>st. map (\<lambda>st'. (fst st',
                        (snd st')(k \<mapsto> take (length (fst st) - length (fst st')) (fst st))))
               (rmatch a s st))"

text \<open>
  \<open>regex.exec(s)\<close> with \<open>lastIndex = 0\<close> (a fresh literal), and \<open>s.match(regex)\<close> for a regex
  without the global flag: the first match at the leftmost start position that has one.
  \<open>execFrom\<close> tries the start positions in turn; its second argument is the input from the
  current start position on.
\<close>

fun execFrom :: "rx \<Rightarrow> jsstring \<Rightarrow> jsstring \<Rightarrow> captures option" where
  "execFrom r s [] =
     (case rmatch r s ([], Map.empty) of [] \<Rightarrow> None | st # _ \<Rightarrow> Some (snd st))"
| "execFrom r s (c # cs) =
     (case rmatch r s (c # cs, Map.empty) of [] \<Rightarrow> execFrom r s cs | st # _ \<Rightarrow> Some (snd st))"

definition exec :: "rx \<Rightarrow> jsstring \<Rightarrow> captures option" where
  "exec r s = execFrom r s s"

definition isDigit :: "cu \<Rightarrow> bool" where
  "isDigit c \<longleftrightarrow> 0x30 \<le> c \<and> c \<le> 0x39"

text \<open>\<open>\w\<close> is \<open>[A-Za-z0-9_]\<close>.\<close>

definition isWordChar :: "cu \<Rightarrow> bool" where
  "isWordChar c \<longleftrightarrow>
     (0x41 \<le> c \<and> c \<le> 0x5A) \<or> (0x61 \<le> c \<and> c \<le> 0x7A) \<or> isDigit c \<or> c = 0x5F"

text \<open>\<open>.\<close> matches every code unit but the line terminators.\<close>

definition isLineTerminator :: "cu \<Rightarrow> bool" where
  "isLineTerminator c \<longleftrightarrow> c \<in> {0x0A, 0x0D, 0x2028, 0x2029}"

section \<open>The VCS adapter (\<open>src/app/api/git/route.ts\<close>)\<close>

text \<open>
  What the adapter asks of its environment: whether a path exists, what a shell command run in
  a directory prints (or the value \<open>execSync\<close> throws when the command fails), and the
  library function \<open>basename\<close>. Every operation returns its result together with the
  commands it has run, in order.
\<close>

record gitWorld =
  existsSync :: "jsstring \<Rightarrow> bool"
  execSync :: "jsstring \<Rightarrow> jsstring \<Rightarrow> thrown + jsstring"
  basename :: "jsstring \<Rightarrow> jsstring"

type_synonym 'a traced = "(thrown + 'a) \<times> jsstring list"

text \<open>\<open>try { body } catch (error) { handler }\<close> on the outcome of the body.\<close>

definition tryCatch :: "thrown + 'a \<Rightarrow> (thrown \<Rightarrow> thrown + 'a) \<Rightarrow> thrown + 'a" where
  "tryCatch body handler = (case body of Inl error \<Rightarrow> handler error | Inr v \<Rightarrow> Inr v)"

text \<open>Lines 52 to 56: the branch names in the output of \<open>git branch\<close>.\<close>

definition branchesOf :: "jsstring \<Rightarrow> jsstring list" where
  "branchesOf output =
     map (\<lambda>branch. if startsWith branch (js ''* '') then drop 2 branch else branch)
       (filter (\<lambda>branch. length branch > 0)
         (map (\<lambda>branch. trim branch) (splitLines output)))"

definition getBranches :: "gitWorld \<Rightarrow> jsstring \<Rightarrow> jsstring list traced" where
  "getBranches w projectPath =
     (if \<not> existsSync w projectPath then (Inr [], [])
      else
        (tryCatch
           (case execSync w (js ''git branch'') projectPath of
              Inl thrown \<Rightarrow> Inl thrown
            | Inr output \<Rightarrow> Inr (branchesOf output))
           (\<lambda>error. Inr []),
         [js ''git branch'']))"

definition getCurrentBranch :: "gitWorld \<Rightarrow> jsstring \<Rightarrow> jsstring option traced" where
  "getCurrentBranch w projectPath =
     (if \<not> existsSync w projectPath then (Inr None, [])
      else
        (tryCatch
           (case execSync w (js ''git branch --show-current'') projectPath of
              Inl thrown \<Rightarrow> Inl thrown
            | Inr output \<Rightarrow> Inr (Some (trim output)))
           (\<lambda>error. Inr None),
         [js ''git branch --show-current'']))"

definition commonDefaultBranches :: "jsstring list" where
  "commonDefaultBranches = [js ''develop'', js ''main'', js ''master'']"

text \<open>The literal \<open>/HEAD branch: (.+)/\<close> of line 109.\<close>

definition headBranchPattern :: rx where
  "headBranchPattern =
     Seq (Lit (js ''HEAD branch: '')) (Group 1 (Plus (Cls (\<lambda>c. \<not> isLineTerminator c))))"

text \<open>
  Lines 103 to 115, the inner \<open>try\<close>: the name the remote advertises, if the command succeeds
  and its output matches; \<open>None\<close> stands for going on to the fallback of line 118.
\<close>

definition remoteHeadBranch :: "gitWorld \<Rightarrow> jsstring \<Rightarrow> jsstring option" where
  "remoteHeadBranch w projectPath =
     (case execSync w (js ''git remote show origin'') projectPath of
        Inl e \<Rightarrow> None
      | Inr remoteOutput \<Rightarrow>
          (case exec headBranchPattern remoteOutput of
             None \<Rightarrow> None
           | Some headBranchMatch \<Rightarrow>
               (case headBranchMatch 1 of
                  None \<Rightarrow> None
                | Some g \<Rightarrow> if g \<noteq> [] then Some (trim g) else None)))"

definition getDefaultBranch :: "gitWorld \<Rightarrow> jsstring \<Rightarrow> jsstring option traced" where
  "getDefaultBranch w projectPath =
     (if \<not> existsSync w projectPath then (Inr None, [])
      else
        (let (listed, ran) = getBranches w projectPath;
             ranRemote = ran @ [js ''git remote show origin'']
         in case listed of
              Inl thrown \<Rightarrow> (tryCatch (Inl thrown) (\<lambda>error. Inr None), ran)
            | Inr branches \<Rightarrow>
                (case find (\<lambda>branch. branch \<in> set branches) commonDefaultBranches of
                   Some branch \<Rightarrow> (Inr (Some branch), ran)
                 | None \<Rightarrow>
                     (case remoteHeadBranch w projectPath of
                        Some name \<Rightarrow> (Inr (Some name), ranRemote)
                      | None \<Rightarrow>
                          (Inr (case branches of [] \<Rightarrow> None | first # _ \<Rightarrow> Some first),
                           ranRemote)))))"

definition defaultExcludePatterns :: "jsstring list" where
  "defaultExcludePatterns = [js ''**/*.snap'', js ''**/*.json'']"

definition diffCommand :: "jsstring \<Rightarrow> jsstring \<Rightarrow> jsstring list \<Rightarrow> jsstring" where
  "diffCommand fromBranch toBranch excludePatterns =
     (let excludeArgs =
            joinWith (js '' '')
              (map (\<lambda>pattern. js [CHR 0x27] @ js '':(exclude)'' @ pattern @ js [CHR 0x27])
                 excludePatterns)
      in js ''git diff '' @ fromBranch @ js ''...'' @ toBranch @ js '' -- '' @ excludeArgs)"

definition getDiff ::
  "gitWorld \<Rightarrow> jsstring \<Rightarrow> jsstring \<Rightarrow> jsstring \<Rightarrow> jsstring list option \<Rightarrow> jsstring option traced"
  where
  "getDiff w projectPath fromBranch toBranch excludePatterns =
     (if \<not> existsSync w projectPath then (Inr None, [])
      else
        (let cmd = diffCommand fromBranch toBranch
                     (case excludePatterns of None \<Rightarrow> defaultExcludePatterns | Some ps \<Rightarrow> ps)
         in (tryCatch
               (case execSync w cmd projectPath of
                  Inl thrown \<Rightarrow> Inl thrown
                | Inr output \<Rightarrow> Inr (Some output))
               (\<lambda>error. Inr None),
             [cmd])))"

definition getProjectName :: "gitWorld \<Rightarrow> jsstring \<Rightarrow> jsstring option traced" where
  "getProjectName w projectPath =
     (if \<not> existsSync w projectPath then (Inr None, [])
      else (Inr (Some (basename w projectPath)), []))"

section \<open>The issue adapter (\<open>src/lib/jira-ticket-retrieval.ts\<close>, \<open>src/app/api/jira/route.ts\<close>)\<close>

datatype JiraTicket =
  JiraTicket (ticketId: jsstring) (markdownDescription: jsstring) (description: jsstring)
    (title: jsstring) (parents: "JiraTicket list option")

text \<open>
  The \<open>description\<close> field of the tracker's answer, of type \<open>unknown\<close> in the source: missing
  (\<open>undefined\<close>), a string, a boolean, or a value whose \<open>typeof\<close> is \<open>'object'\<close>, which is a
  document node or \<open>null\<close> (\<open>DObject ANull\<close>). Numbers are left out.
\<close>

datatype fieldValue = DUndefined | DString jsstring | DBoolean bool | DObject adf

record parentLink =
  key :: jsstring

record JiraFields =
  summary :: jsstring
  descriptionField :: fieldValue
  parent :: "parentLink option"

record JiraApiResponse =
  jfields :: JiraFields

record fetchRequest =
  url :: jsstring
  headers :: "(jsstring \<times> jsstring) list"

record 'a fetchResponse =
  ok :: bool
  statusText :: jsstring
  json :: "thrown + 'a"

text \<open>
  The network and the runtime as the issue adapter uses them: \<open>fetch\<close>, and the Base64 text of
  a string (\<open>Buffer.from(s).toString('base64')\<close>).
\<close>

record jiraWorld =
  fetch :: "fetchRequest \<Rightarrow> thrown + JiraApiResponse fetchResponse"
  base64 :: "jsstring \<Rightarrow> jsstring"

record JiraClient =
  baseUrl :: jsstring
  email :: jsstring
  apiToken :: jsstring

definition newJiraClient :: "jsstring \<Rightarrow> jsstring \<Rightarrow> jsstring \<Rightarrow> JiraClient" where
  "newJiraClient domain email' apiToken' =
     \<lparr>baseUrl = js ''https://'' @ domain @ js ''/rest/api/3'', email = email',
      apiToken = apiToken'\<rparr>"

text \<open>Lines 131 to 134; \<open>typeof null\<close> is \<open>'object'\<close>.\<close>

fun formattedDesc :: "fieldValue \<Rightarrow> thrown + jsstring" where
  "formattedDesc (DObject node) = extractTextFromADF node"
| "formattedDesc DUndefined = Inr []"
| "formattedDesc (DString s) = Inr s"
| "formattedDesc (DBoolean b) = Inr (if b then js ''true'' else [])"

text \<open>Lines 128 to 156: from the parsed answer to the ticket.\<close>

definition ticketOf :: "jsstring \<Rightarrow> JiraApiResponse \<Rightarrow> thrown + JiraTicket" where
  "ticketOf ticketIdentifier response =
     (case formattedDesc (descriptionField (jfields response)) of
        Inl thrown \<Rightarrow> Inl thrown
      | Inr desc \<Rightarrow>
          (let ticket = JiraTicket ticketIdentifier desc desc (summary (jfields response)) None
           in case parent (jfields response) of
                None \<Rightarrow> Inr ticket
              | Some p \<Rightarrow>
                  Inr (JiraTicket (ticketId ticket) (markdownDescription ticket)
                         (description ticket) (title ticket)
                         (Some [JiraTicket (key p) [] [] [] None]))))"

definition ticketRequest :: "jiraWorld \<Rightarrow> JiraClient \<Rightarrow> jsstring \<Rightarrow> fetchRequest" where
  "ticketRequest w client ticketIdentifier =
     \<lparr>url = baseUrl client @ js ''/issue/'' @ ticketIdentifier @ js ''?''
              @ js ''fields=summary%2Cdescription%2Cparent'',
      headers =
        [(js ''Authorization'',
          js ''Basic '' @ base64 w (email client @ js '':'' @ apiToken client)),
         (js ''Accept'', js ''application/json''),
         (js ''X-Force-Accept-Language'', js ''true''),
         (js ''Accept-Language'', js ''en'')]\<rparr>"

text \<open>
  \<open>JiraClient.getTicket\<close>; the second component lists the requests sent with \<open>fetch\<close>.
\<close>

definition clientGetTicket ::
  "jiraWorld \<Rightarrow> JiraClient \<Rightarrow> jsstring \<Rightarrow> (thrown + JiraTicket option) \<times> fetchRequest list"
  where
  "clientGetTicket w client ticketIdentifier =
     (let request = ticketRequest w client ticketIdentifier
      in (tryCatch
            (case fetch w request of
               Inl thrown \<Rightarrow> Inl thrown
             | Inr response \<Rightarrow>
                 if \<not> ok response
                 then Inl (newError (js ''Failed to fetch ticket: '' @ statusText response))
                 else (case json response of
                         Inl thrown \<Rightarrow> Inl thrown
                       | Inr parsed \<Rightarrow>
                           (case ticketOf ticketIdentifier parsed of
                              Inl thrown \<Rightarrow> Inl thrown
                            | Inr ticket \<Rightarrow> Inr (Some ticket))))
            (\<lambda>error. Inr None),
          [request]))"

text \<open>\<open>process.env\<close>, as far as \<open>jiraClientFrom\<close> reads it.\<close>

record jiraEnv =
  JIRA_DOMAIN :: "jsstring option"
  JIRA_EMAIL :: "jsstring option"
  JIRA_API_TOKEN :: "jsstring option"

text \<open>\<open>!x\<close> for a value that is a string or \<open>undefined\<close>.\<close>

fun falsy :: "jsstring option \<Rightarrow> bool" where
  "falsy None = True"
| "falsy (Some s) = (s = [])"

definition jiraClientFrom :: "jiraEnv \<Rightarrow> JiraClient option" where
  "jiraClientFrom env =
     (if falsy (JIRA_DOMAIN env) \<or> falsy (JIRA_EMAIL env) \<or> falsy (JIRA_API_TOKEN env)
      then None
      else (case (JIRA_DOMAIN env, JIRA_EMAIL env, JIRA_API_TOKEN env) of
              (Some domain, Some email', Some token) \<Rightarrow> Some (newJiraClient domain email' token)
            | _ \<Rightarrow> None))"

definition missingConfiguration :: jsstring where
  "missingConfiguration =
     js ''Missing Jira configuration. Please check your environment variables.''"

text \<open>The route's \<open>getTicket\<close>: its handler logs and throws the error again.\<close>

definition getTicket ::
  "jiraEnv \<Rightarrow> jiraWorld \<Rightarrow> jsstring \<Rightarrow> (thrown + JiraTicket option) \<times> fetchRequest list" where
  "getTicket env w ticketId' =
     (case jiraClientFrom env of
        None \<Rightarrow> (tryCatch (Inl (newError missingConfiguration)) (\<lambda>error. Inl error), [])
      | Some jiraClient \<Rightarrow>
          (let (ticket, sent) = clientGetTicket w jiraClient ticketId'
           in (tryCatch ticket (\<lambda>error. Inl error), sent)))"

text \<open>The route's \<open>POST\<close>: the status and the JSON body of its answer.\<close>

datatype jiraBody = Data "JiraTicket option" | ErrorMessage jsstring

record jiraPost =
  action :: "jsstring option"
  ticketIdParam :: jsstring

definition jiraPOST ::
  "jiraEnv \<Rightarrow> jiraWorld \<Rightarrow> thrown + jiraPost \<Rightarrow> (nat \<times> jiraBody) \<times> fetchRequest list" where
  "jiraPOST env w body =
     (case body of
        Inl error \<Rightarrow> ((500, ErrorMessage (String_of error)), [])
      | Inr post \<Rightarrow>
          if action post = Some (js ''getTicket'')
          then (case getTicket env w (ticketIdParam post) of
                  (Inl error, sent) \<Rightarrow> ((500, ErrorMessage (String_of error)), sent)
                | (Inr ticket, sent) \<Rightarrow> ((200, Data ticket), sent))
          else ((400, ErrorMessage (js ''Invalid action'')), []))"

section \<open>The matching delegate (\<open>src/app/api/llm/route.ts\<close>)\<close>













section \<open>Ticket-ID inference (\<open>src/app/page.tsx\<close>)\<close>

text \<open>The literal \<open>/^(?:\w+\/)*([^-]+)-(\d+)/g\<close> of lines 111 and 208.\<close>

definition ticketIdPattern :: rx where
  "ticketIdPattern =
     Seq Bol
       (Seq (Star (Seq (Plus (Cls isWordChar)) (Lit (js ''/''))))
          (Seq (Group 1 (Plus (Cls (\<lambda>c. c \<noteq> 0x2D))))
             (Seq (Lit (js ''-'')) (Group 2 (Plus (Cls isDigit))))))"

text \<open>A capture inside a template literal; a group that took no part reads \<open>undefined\<close>.\<close>

definition captured :: "captures \<Rightarrow> nat \<Rightarrow> jsstring" where
  "captured matches k = (case matches k of None \<Rightarrow> js ''undefined'' | Some g \<Rightarrow> g)"

text \<open>
  Lines 208 to 210 (and 110 to 117): the identifier inferred from a branch name. The array
  that \<open>exec\<close> returns for this pattern always has three entries.
\<close>

definition inferTicketId :: "jsstring \<Rightarrow> jsstring option" where
  "inferTicketId workingBranch =
     (case exec ticketIdPattern workingBranch of
        None \<Rightarrow> None
      | Some matches \<Rightarrow> Some (captured matches 1 @ js ''-'' @ captured matches 2))"

record formConfig =
  workingBranch :: "jsstring option"
  ticketIdField :: "jsstring option"

definition setWorkingBranch :: "jsstring \<Rightarrow> formConfig \<Rightarrow> formConfig" where
  "setWorkingBranch branch cfg =
     cfg\<lparr>workingBranch := Some branch,
         ticketIdField :=
           (case ticketIdField cfg of None \<Rightarrow> inferTicketId branch | Some t \<Rightarrow> Some t)\<rparr>"

section \<open>Specification-side definitions\<close>

subsection \<open>Flattening, as a rule set\<close>

text \<open>
  A tree without \<open>null\<close> nodes, and the flat text of a node stated as rules: the text of a
  text run, the marks a node puts before its children (a line break for a paragraph and for a
  bullet list, the bullet literal for a list item), the flat texts of the children in order,
  and the marks after them (a line break for a paragraph and for a list item).
\<close>

fun nullFree :: "adf \<Rightarrow> bool" where
  "nullFree ANull = False"
| "nullFree (ANode ty tx None) = True"
| "nullFree (ANode ty tx (Some cs)) = (\<forall>c \<in> set cs. nullFree c)"

definition runText :: "jsstring option \<Rightarrow> jsstring option \<Rightarrow> jsstring" where
  "runText ty tx =
     (if ty = Some (js ''text'') then (case tx of None \<Rightarrow> [] | Some t \<Rightarrow> t) else [])"

definition marksBefore :: "jsstring option \<Rightarrow> jsstring" where
  "marksBefore ty =
     (if ty = Some (js ''paragraph'') \<or> ty = Some (js ''bulletList'') then lineBreak
      else if ty = Some (js ''listItem'') then bulletLiteral
      else [])"

definition marksAfter :: "jsstring option \<Rightarrow> jsstring" where
  "marksAfter ty =
     (if ty = Some (js ''paragraph'') \<or> ty = Some (js ''listItem'') then lineBreak else [])"

fun flattenSpec :: "adf \<Rightarrow> jsstring" where
  "flattenSpec ANull = []"
| "flattenSpec (ANode ty tx None) = runText ty tx @ marksBefore ty @ marksAfter ty"
| "flattenSpec (ANode ty tx (Some cs)) =
     runText ty tx @ marksBefore ty @ concat (map flattenSpec cs) @ marksAfter ty"

text \<open>
  A text run, an element with children, and the example: the paragraph
  \<open>{paragraph:[{text:"Done"}]}\<close>, the bullet list with the items \<open>A\<close> and \<open>B\<close>, and a document
  that holds the sequence of both.
\<close>

definition textNode :: "jsstring \<Rightarrow> adf" where
  "textNode s = ANode (Some (js ''text'')) (Some s) None"

definition element :: "string \<Rightarrow> adf list \<Rightarrow> adf" where
  "element ty cs = ANode (Some (js ty)) None (Some cs)"

definition exampleParagraph :: adf where
  "exampleParagraph = element ''paragraph'' [textNode (js ''Done'')]"

definition exampleList :: adf where
  "exampleList = element ''bulletList''
     [element ''listItem'' [textNode (js ''A'')], element ''listItem'' [textNode (js ''B'')]]"

definition exampleDoc :: adf where
  "exampleDoc = element ''doc'' [exampleParagraph, exampleList]"

text \<open>The bullet U+2022 followed by a space.\<close>

definition bulletGlyph :: jsstring where
  "bulletGlyph = [0x2022, 0x20]"

subsection \<open>The fences of the user prompt\<close>



subsection \<open>Example environments\<close>

text \<open>A machine on which no project path exists.\<close>

definition noRepository :: gitWorld where
  "noRepository = \<lparr>existsSync = (\<lambda>p. False), execSync = (\<lambda>c p. Inr (js ''* main'')),
                    basename = (\<lambda>p. p)\<rparr>"

text \<open>An environment without the API token, and a tracker that cannot be reached.\<close>

definition envWithoutToken :: jiraEnv where
  "envWithoutToken =
     \<lparr>JIRA_DOMAIN = Some (js ''example.atlassian.net''), JIRA_EMAIL = Some (js ''dev@example.com''),
      JIRA_API_TOKEN = None\<rparr>"

definition unreachableTracker :: jiraWorld where
  "unreachableTracker =
     \<lparr>fetch = (\<lambda>request. Inl (typeError (js ''fetch failed''))), base64 = (\<lambda>s. s)\<rparr>"

text \<open>The body of a \<open>getTicket\<close> request to the route.\<close>

definition getTicketPost :: "jsstring \<Rightarrow> thrown + jiraPost" where
  "getTicketPost ticket = Inr \<lparr>action = Some (js ''getTicket''), ticketIdParam = ticket\<rparr>"

text \<open>
  A tracker that answers every request with the given issue; two issues, one with a parent
  link and one whose description is \<open>null\<close>; a configured client.
\<close>

definition trackerAnswering :: "JiraApiResponse \<Rightarrow> jiraWorld" where
  "trackerAnswering issue =
     \<lparr>fetch = (\<lambda>request. Inr \<lparr>ok = True, statusText = js ''OK'', json = Inr issue\<rparr>),
      base64 = (\<lambda>s. s)\<rparr>"

definition issueWithParent :: JiraApiResponse where
  "issueWithParent =
     \<lparr>jfields = \<lparr>summary = js ''Add button'', descriptionField = DString (js ''AC: a button''),
                  parent = Some \<lparr>key = js ''PROJ-100''\<rparr>\<rparr>\<rparr>"

definition issueWithNullDescription :: JiraApiResponse where
  "issueWithNullDescription =
     \<lparr>jfields = \<lparr>summary = js ''Add button'', descriptionField = DObject ANull,
                  parent = None\<rparr>\<rparr>"

definition exampleClient :: JiraClient where
  "exampleClient = newJiraClient (js ''example.atlassian.net'') (js ''dev@example.com'') (js ''secret'')"

subsection \<open>The matching delegate's environment\<close>






subsection \<open>The VCS adapter's environment\<close>


text \<open>
  The name that the output of \<open>git remote show origin\<close> advertises: the text that follows the
  first \<open>HEAD branch: \<close> that has at least one character after it on its line, up to the end of
  that line.
\<close>

fun advertisedHead :: "jsstring \<Rightarrow> jsstring option" where
  "advertisedHead [] = None"
| "advertisedHead (c # cs) =
     (if startsWith (c # cs) (js ''HEAD branch: '') \<and>
         takeWhile (\<lambda>x. \<not> isLineTerminator x) (drop 13 (c # cs)) \<noteq> []
      then Some (takeWhile (\<lambda>x. \<not> isLineTerminator x) (drop 13 (c # cs)))
      else advertisedHead cs)"

text \<open>The first branch of a list, or \<open>null\<close> for the empty list.\<close>

definition firstOf :: "jsstring list \<Rightarrow> jsstring option" where
  "firstOf branches = (case branches of [] \<Rightarrow> None | first # _ \<Rightarrow> Some first)"


definition gitRepository :: "jsstring \<Rightarrow> thrown + jsstring \<Rightarrow> gitWorld" where
  "gitRepository branchOutput remoteOutcome =
     \<lparr>existsSync = (\<lambda>p. True),
      execSync = (\<lambda>c p. if c = js ''git branch'' then Inr branchOutput else remoteOutcome),
      basename = (\<lambda>p. p)\<rparr>"

definition remoteShowOutput :: jsstring where
  "remoteShowOutput =
     js ''* remote origin\<newline>  Fetch URL: git@example.com:repo.git\<newline>''
     @ js ''  HEAD branch: release\<newline>  Remote branch:\<newline>''"

definition noRemote :: "thrown + jsstring" where
  "noRemote = Inl (newError (js ''Command failed: git remote show origin''))"

subsection \<open>Ticket-ID inference as an explicit parser\<close>

text \<open>
  The grammar of the pattern, read from left to right. A segment is a non-empty run of word
  characters followed by a slash; \<open>seg\<close> removes one segment from the front of a string.
\<close>

definition notHyphen :: "cu \<Rightarrow> bool" where
  "notHyphen c \<longleftrightarrow> c \<noteq> 0x2D"

definition seg :: "jsstring \<Rightarrow> jsstring option" where
  "seg r =
     (if takeWhile isWordChar r = [] then None
      else (case dropWhile isWordChar r of
              [] \<Rightarrow> None
            | d # t \<Rightarrow> if d = 0x2F then Some t else None))"

text \<open>
  Where the key starts: after as many leading segments as can be removed while a non-empty key
  (text before the first hyphen) is left.
\<close>

function keyStart :: "jsstring \<Rightarrow> jsstring option" where
  "keyStart r =
     (case seg r of
        None \<Rightarrow> if takeWhile notHyphen r = [] then None else Some r
      | Some r' \<Rightarrow> (case keyStart r' of None \<Rightarrow> Some r | Some q \<Rightarrow> Some q))"
  by pat_completeness auto

termination
proof (relation "measure length")
  show "wf (measure length)" by simp
next
  fix r r' :: jsstring
  assume "seg r = Some r'"
  then have "dropWhile isWordChar r = 0x2F # r'"
    by (auto simp: seg_def split: if_splits list.splits)
  moreover have "length (dropWhile isWordChar r) \<le> length r"
    by (rule length_dropWhile_le)
  ultimately show "(r', r) \<in> measure length" by simp
qed

declare keyStart.simps [simp del]

text \<open>
  The inferred identifier: the key, a hyphen and the digits that follow the first hyphen, if
  there is a key, a hyphen and at least one digit after it.
\<close>

definition ticketIdSpec :: "jsstring \<Rightarrow> jsstring option" where
  "ticketIdSpec b =
     (case keyStart b of
        None \<Rightarrow> None
      | Some q \<Rightarrow>
          (case dropWhile notHyphen q of
             [] \<Rightarrow> None
           | h # t \<Rightarrow>
               if takeWhile isDigit t = [] then None
               else Some (takeWhile notHyphen q @ js ''-'' @ takeWhile isDigit t)))"

text \<open>A prefix made of segments.\<close>

inductive slashPrefix :: "jsstring \<Rightarrow> bool" where
  none: "slashPrefix []"
| segment: "w \<noteq> [] \<Longrightarrow> \<forall>c \<in> set w. isWordChar c \<Longrightarrow> slashPrefix p \<Longrightarrow>
            slashPrefix (w @ js ''/'' @ p)"

text \<open>
  The parts of the pattern: one segment of the prefix, the hyphen with the number, and the key
  with what follows it. A string is \<open>keyed\<close> when the key and number part of the pattern matches
  at its start; \<open>afterSegments\<close> lists the matches of the pattern after the start anchor.
\<close>

definition segmentRx :: rx where
  "segmentRx = Seq (Plus (Cls isWordChar)) (Lit (js ''/''))"

definition numberRx :: rx where
  "numberRx = Seq (Lit (js ''-'')) (Group 2 (Plus (Cls isDigit)))"

definition keyRx :: rx where
  "keyRx = Seq (Group 1 (Plus (Cls notHyphen))) numberRx"

definition keyed :: "jsstring \<Rightarrow> bool" where
  "keyed r \<longleftrightarrow>
     takeWhile notHyphen r \<noteq> [] \<and>
     (case dropWhile notHyphen r of [] \<Rightarrow> False | h # t \<Rightarrow> takeWhile isDigit t \<noteq> [])"

definition afterSegments :: "jsstring \<Rightarrow> jsstring \<Rightarrow> captures \<Rightarrow> mstate list" where
  "afterSegments s r c = concat (map (rmatch keyRx s) (star (rmatch segmentRx s) (r, c)))"

section \<open>Flattening a description tree\<close>

lemma js_distinct_types:
  "js ''text'' \<noteq> js ''paragraph''" "js ''text'' \<noteq> js ''bulletList''"
  "js ''text'' \<noteq> js ''listItem''" "js ''paragraph'' \<noteq> js ''bulletList''"
  "js ''paragraph'' \<noteq> js ''listItem''" "js ''bulletList'' \<noteq> js ''listItem''"
  by (simp_all add: js_def)

lemma openingText_spec: "openingText ty tx = runText ty tx @ marksBefore ty"
  using js_distinct_types
  by (auto simp: openingText_def runText_def marksBefore_def Let_def split: option.splits)

lemma closingText_spec: "closingText ty = marksAfter ty"
  by (simp add: closingText_def marksAfter_def)

lemma extract_nullFree:
  "nullFree n \<Longrightarrow> extractTextFromADF n = Inr (flattenSpec n)"
  and extractContent_nullFree:
  "(\<forall>c \<in> set cs. nullFree c) \<Longrightarrow>
     extractContent cs acc = Inr (acc @ concat (map flattenSpec cs))"
proof (induction n and cs acc rule: extractTextFromADF_extractContent.induct)
  case 1
  then show ?case by simp
next
  case (2 ty tx ct)
  then show ?case by (cases ct) (auto simp: openingText_spec closingText_spec)
next
  case (3 acc)
  then show ?case by simp
next
  case (4 child rest acc)
  then show ?case by auto
qed

lemmas example_defs =
  exampleDoc_def exampleParagraph_def exampleList_def element_def textNode_def
  openingText_def closingText_def js_def lineBreak_def bulletLiteral_def bulletGlyph_def

lemma extract_exampleParagraph:
  "extractTextFromADF exampleParagraph = Inr (js ''\<newline>Done\<newline>'')"
  by (simp add: example_defs)

lemma extract_exampleList:
  "extractTextFromADF exampleList =
     Inr (js ''\<newline>'' @ bulletLiteral @ js ''A\<newline>'' @ bulletLiteral @ js ''B\<newline>'')"
  by (simp add: example_defs)

lemma extract_exampleDoc:
  "extractTextFromADF exampleDoc =
     Inr (js ''\<newline>Done\<newline>'' @
          js ''\<newline>'' @ bulletLiteral @ js ''A\<newline>'' @ bulletLiteral @ js ''B\<newline>'')"
  by (simp add: example_defs)

text \<open>
  Claim C1, as amended. For every description tree without \<open>null\<close> nodes,
  \<open>extractTextFromADF\<close> returns the flat text of the rule set: a text run's text verbatim, a
  line break before and after each paragraph, a line break before each bullet list, the bullet
  literal of the source before each list item and a line break after it, children in document
  order. The paragraph \<open>{paragraph:[{text:"Done"}]}\<close> flattens to a line break, \<open>Done\<close> and a
  line break; the bullet list with the items \<open>A\<close> and \<open>B\<close> flattens to a line break followed by
  one line per item, each made of the bullet literal, the item's text and a line break; the
  sequence of both flattens to the first text followed by the second.
\<close>

theorem extractTextFromADF_flattens:
  "(\<forall>n. nullFree n \<longrightarrow> extractTextFromADF n = Inr (flattenSpec n)) \<and>
   extractTextFromADF exampleParagraph = Inr (js ''\<newline>Done\<newline>'') \<and>
   extractTextFromADF exampleList =
     Inr (js ''\<newline>'' @ bulletLiteral @ js ''A\<newline>'' @ bulletLiteral @ js ''B\<newline>'') \<and>
   extractTextFromADF exampleDoc =
     Inr (js ''\<newline>Done\<newline>'' @
          js ''\<newline>'' @ bulletLiteral @ js ''A\<newline>'' @ bulletLiteral @ js ''B\<newline>'')"
  using extract_nullFree extract_exampleParagraph extract_exampleList extract_exampleDoc
  by blast

text \<open>
  The example document of the specification has no \<open>null\<close> node, so the rule set applies to
  it.
\<close>

theorem extractTextFromADF_flattens_witness:
  "nullFree exampleDoc \<and>
   extractTextFromADF exampleDoc = Inr (flattenSpec exampleDoc) \<and>
   flattenSpec exampleDoc =
     js ''\<newline>Done\<newline>'' @
     js ''\<newline>'' @ bulletLiteral @ js ''A\<newline>'' @ bulletLiteral @ js ''B\<newline>''"
proof -
  have nf: "nullFree exampleDoc"
    by (simp add: exampleDoc_def exampleParagraph_def exampleList_def element_def textNode_def)
  from extractTextFromADF_flattens nf
  have "extractTextFromADF exampleDoc = Inr (flattenSpec exampleDoc)" by blast
  moreover from extractTextFromADF_flattens
  have "extractTextFromADF exampleDoc =
     Inr (js ''\<newline>Done\<newline>'' @
          js ''\<newline>'' @ bulletLiteral @ js ''A\<newline>'' @ bulletLiteral @ js ''B\<newline>'')"
    by blast
  ultimately show ?thesis using nf by simp
qed

text \<open>
  Claim C1 as stated fails on its own example: the flat text of the paragraph begins with a
  line break (line 69 of the source), so it is not \<open>Done\<close> followed by a line break, and the
  flat text of the sequence is not the string the claim gives, whether its bullet is read as
  U+2022 or as the literal of the source.
\<close>

theorem extractTextFromADF_example_counterexample:
  "extractTextFromADF exampleParagraph \<noteq> Inr (js ''Done\<newline>'') \<and>
   extractTextFromADF exampleDoc \<noteq>
     Inr (js ''Done\<newline>'' @
          js ''\<newline>'' @ bulletGlyph @ js ''A\<newline>'' @ bulletGlyph @ js ''B\<newline>'') \<and>
   extractTextFromADF exampleDoc \<noteq>
     Inr (js ''Done\<newline>'' @
          js ''\<newline>'' @ bulletLiteral @ js ''A\<newline>'' @ bulletLiteral @ js ''B\<newline>'')"
  by (simp add: example_defs)

section \<open>The user prompt\<close>


section \<open>The VCS adapter on a missing path\<close>

text \<open>
  Claim C3. When the project path does not exist, each of the five operations returns its
  sentinel (the empty list for \<open>getBranches\<close>, \<open>null\<close> for the others) as an ordinary result,
  not as a thrown value, and has run no command.
\<close>

theorem vcs_missing_path_sentinels:
  assumes "\<not> existsSync w projectPath"
  shows "getBranches w projectPath = (Inr [], []) \<and>
         getCurrentBranch w projectPath = (Inr None, []) \<and>
         getDefaultBranch w projectPath = (Inr None, []) \<and>
         getDiff w projectPath fromBranch toBranch excludePatterns = (Inr None, []) \<and>
         getProjectName w projectPath = (Inr None, [])"
  using assms
  by (simp add: getBranches_def getCurrentBranch_def getDefaultBranch_def getDiff_def
      getProjectName_def)

text \<open>The five operations on a machine without the path.\<close>

theorem vcs_missing_path_sentinels_witness:
  "\<not> existsSync noRepository (js ''/no/such/dir'') \<and>
   getBranches noRepository (js ''/no/such/dir'') = (Inr [], []) \<and>
   getCurrentBranch noRepository (js ''/no/such/dir'') = (Inr None, []) \<and>
   getDefaultBranch noRepository (js ''/no/such/dir'') = (Inr None, []) \<and>
   getDiff noRepository (js ''/no/such/dir'') (js ''main'') (js ''work'') None = (Inr None, []) \<and>
   getProjectName noRepository (js ''/no/such/dir'') = (Inr None, [])"
proof -
  have h: "\<not> existsSync noRepository (js ''/no/such/dir'')"
    by (simp add: noRepository_def)
  show ?thesis
    using h vcs_missing_path_sentinels [OF h, of "js ''main''" "js ''work''" None] by simp
qed

section \<open>Missing tracker configuration\<close>

lemma jiraClientFrom_falsy:
  "falsy (JIRA_DOMAIN env) \<or> falsy (JIRA_EMAIL env) \<or> falsy (JIRA_API_TOKEN env) \<Longrightarrow>
     jiraClientFrom env = None"
  by (simp add: jiraClientFrom_def)

lemma String_of_newError: "String_of (newError msg) = (if msg = [] then js ''Error'' else js ''Error: '' @ msg)"
  by (simp add: newError_def js_def)

lemma missingConfiguration_nonempty: "missingConfiguration \<noteq> []"
  by (simp add: missingConfiguration_def js_def)

text \<open>
  Claim C4. If the domain, the account email or the API token is absent from the environment,
  \<open>jiraClientFrom\<close> returns \<open>null\<close>, the route's \<open>getTicket\<close> throws the configuration error
  having sent no request, and the route answers a \<open>getTicket\<close> request with status 500 and
  that error's text, again without any request sent.
\<close>

theorem missing_configuration_refused:
  assumes "JIRA_DOMAIN env = None \<or> JIRA_EMAIL env = None \<or> JIRA_API_TOKEN env = None"
  shows "jiraClientFrom env = None \<and>
         getTicket env w ticket = (Inl (newError missingConfiguration), []) \<and>
         jiraPOST env w (getTicketPost ticket) =
           ((500, ErrorMessage (js ''Error: '' @ missingConfiguration)), [])"
proof -
  from assms have "falsy (JIRA_DOMAIN env) \<or> falsy (JIRA_EMAIL env) \<or> falsy (JIRA_API_TOKEN env)"
    by auto
  then have none: "jiraClientFrom env = None" by (rule jiraClientFrom_falsy)
  then have refused: "getTicket env w ticket = (Inl (newError missingConfiguration), [])"
    by (simp add: getTicket_def tryCatch_def)
  have "jiraPOST env w (getTicketPost ticket) =
           ((500, ErrorMessage (js ''Error: '' @ missingConfiguration)), [])"
    by (simp add: jiraPOST_def getTicketPost_def refused String_of_newError
        missingConfiguration_nonempty)
  with none refused show ?thesis by simp
qed

text \<open>An environment without the API token, in front of a tracker that cannot be reached.\<close>

theorem missing_configuration_refused_witness:
  "JIRA_API_TOKEN envWithoutToken = None \<and>
   jiraClientFrom envWithoutToken = None \<and>
   getTicket envWithoutToken unreachableTracker (js ''PROJ-123'') =
     (Inl (newError missingConfiguration), []) \<and>
   jiraPOST envWithoutToken unreachableTracker (getTicketPost (js ''PROJ-123'')) =
     ((500, ErrorMessage (js ''Error: '' @ missingConfiguration)), [])"
proof -
  have h: "JIRA_DOMAIN envWithoutToken = None \<or> JIRA_EMAIL envWithoutToken = None \<or>
           JIRA_API_TOKEN envWithoutToken = None"
    by (simp add: envWithoutToken_def)
  have "JIRA_API_TOKEN envWithoutToken = None" by (simp add: envWithoutToken_def)
  then show ?thesis
    using missing_configuration_refused [OF h, of unreachableTracker "js ''PROJ-123''"] by simp
qed

section \<open>The matching delegate never raises\<close>



section \<open>Fetching a ticket\<close>

lemma clientGetTicket_ok:
  assumes "fetch w (ticketRequest w client ticket) = Inr response" and "ok response"
    and "json response = Inr parsed"
  shows "clientGetTicket w client ticket =
           (tryCatch (map_sum id Some (ticketOf ticket parsed)) (\<lambda>error. Inr None),
            [ticketRequest w client ticket])"
  using assms
  by (simp add: clientGetTicket_def tryCatch_def Let_def split: sum.splits)

lemma clientGetTicket_Some:
  assumes "clientGetTicket w client ticket = (Inr (Some t), sent)"
  shows "\<exists>response parsed.
           fetch w (ticketRequest w client ticket) = Inr response \<and> ok response \<and>
           json response = Inr parsed \<and> ticketOf ticket parsed = Inr t \<and>
           sent = [ticketRequest w client ticket]"
  using assms
  by (auto simp: clientGetTicket_def tryCatch_def Let_def split: sum.splits if_splits)

lemma ticketOf_parents:
  assumes "ticketOf ticket parsed = Inr t"
  shows "parents t =
           (case parent (jfields parsed) of
              None \<Rightarrow> None
            | Some p \<Rightarrow> Some [JiraTicket (key p) [] [] [] None])"
  using assms
  by (auto simp: ticketOf_def Let_def split: sum.splits option.splits)

text \<open>
  Claim C8. When \<open>JiraClient.getTicket\<close> returns a ticket and the tracker's answer has a parent
  link, the ticket's \<open>parents\<close> is a list of exactly one ticket that has the parent's key as
  identifier, empty title, description and markdown description, and no parents of its own;
  when the answer has no parent link, \<open>parents\<close> is absent. Exactly one request has been sent,
  the one for the ticket itself, so nothing of the parent is fetched.
\<close>

theorem parent_is_placeholder:
  assumes "clientGetTicket w client ticket = (Inr (Some t), sent)"
    and "fetch w (ticketRequest w client ticket) = Inr response"
    and "json response = Inr parsed"
  shows "(\<forall>p. parent (jfields parsed) = Some p \<longrightarrow>
            parents t = Some [JiraTicket (key p) [] [] [] None]) \<and>
         (parent (jfields parsed) = None \<longrightarrow> parents t = None) \<and>
         sent = [ticketRequest w client ticket]"
proof -
  from clientGetTicket_Some [OF assms(1)] assms(2,3)
  have "ticketOf ticket parsed = Inr t" and "sent = [ticketRequest w client ticket]"
    by auto
  with ticketOf_parents [of ticket parsed t] show ?thesis by simp
qed

lemma clientGetTicket_issueWithParent:
  "clientGetTicket (trackerAnswering issueWithParent) exampleClient (js ''PROJ-123'') =
     (Inr (Some (JiraTicket (js ''PROJ-123'') (js ''AC: a button'') (js ''AC: a button'')
                   (js ''Add button'') (Some [JiraTicket (js ''PROJ-100'') [] [] [] None]))),
      [ticketRequest (trackerAnswering issueWithParent) exampleClient (js ''PROJ-123'')])"
  by (simp add: clientGetTicket_def trackerAnswering_def issueWithParent_def tryCatch_def
      ticketOf_def Let_def)

text \<open>The ticket \<open>PROJ-123\<close> with the parent \<open>PROJ-100\<close>.\<close>

theorem parent_is_placeholder_witness:
  "clientGetTicket (trackerAnswering issueWithParent) exampleClient (js ''PROJ-123'') =
     (Inr (Some (JiraTicket (js ''PROJ-123'') (js ''AC: a button'') (js ''AC: a button'')
                   (js ''Add button'') (Some [JiraTicket (js ''PROJ-100'') [] [] [] None]))),
      [ticketRequest (trackerAnswering issueWithParent) exampleClient (js ''PROJ-123'')]) \<and>
   parent (jfields issueWithParent) = Some \<lparr>key = js ''PROJ-100''\<rparr> \<and>
   parents (JiraTicket (js ''PROJ-123'') (js ''AC: a button'') (js ''AC: a button'')
              (js ''Add button'') (Some [JiraTicket (js ''PROJ-100'') [] [] [] None])) =
     Some [JiraTicket (key \<lparr>key = js ''PROJ-100''\<rparr>) [] [] [] None]"
proof -
  have f: "fetch (trackerAnswering issueWithParent)
             (ticketRequest (trackerAnswering issueWithParent) exampleClient (js ''PROJ-123'')) =
           Inr \<lparr>ok = True, statusText = js ''OK'', json = Inr issueWithParent\<rparr>"
    by (simp add: trackerAnswering_def)
  have j: "json \<lparr>ok = True, statusText = js ''OK'', json = Inr issueWithParent\<rparr> = Inr issueWithParent"
    by simp
  have p: "parent (jfields issueWithParent) = Some \<lparr>key = js ''PROJ-100''\<rparr>"
    by (simp add: issueWithParent_def)
  from parent_is_placeholder [OF clientGetTicket_issueWithParent f j] p
  show ?thesis using clientGetTicket_issueWithParent by simp
qed

text \<open>
  Claim C9. When the tracker answers successfully and the description is \<open>null\<close>, the walker
  throws on it and \<open>JiraClient.getTicket\<close> returns \<open>null\<close>, as for a ticket that was not found.
  The fallback for values that are not objects is what a missing description and a plain
  string reach: the ticket is returned, with the empty description and with the string.
\<close>

theorem null_description_reported_missing:
  assumes "fetch w (ticketRequest w client ticket) = Inr response" and "ok response"
    and "json response = Inr parsed"
  shows "(descriptionField (jfields parsed) = DObject ANull \<longrightarrow>
            (\<exists>error. formattedDesc (descriptionField (jfields parsed)) = Inl error) \<and>
            clientGetTicket w client ticket = (Inr None, [ticketRequest w client ticket])) \<and>
         (descriptionField (jfields parsed) = DUndefined \<longrightarrow>
            (\<exists>t. clientGetTicket w client ticket = (Inr (Some t), [ticketRequest w client ticket]) \<and>
                 description t = [])) \<and>
         (\<forall>s. descriptionField (jfields parsed) = DString s \<longrightarrow>
            (\<exists>t. clientGetTicket w client ticket = (Inr (Some t), [ticketRequest w client ticket]) \<and>
                 description t = s))"
  by (auto simp: clientGetTicket_ok [OF assms] ticketOf_def tryCatch_def Let_def
      split: option.splits)

text \<open>An existing ticket whose description is \<open>null\<close>.\<close>

theorem null_description_reported_missing_witness:
  "clientGetTicket (trackerAnswering issueWithNullDescription) exampleClient (js ''PROJ-123'') =
     (Inr None,
      [ticketRequest (trackerAnswering issueWithNullDescription) exampleClient (js ''PROJ-123'')])"
proof -
  have f: "fetch (trackerAnswering issueWithNullDescription)
             (ticketRequest (trackerAnswering issueWithNullDescription) exampleClient
                (js ''PROJ-123'')) =
           Inr \<lparr>ok = True, statusText = js ''OK'', json = Inr issueWithNullDescription\<rparr>"
    by (simp add: trackerAnswering_def)
  have o: "ok \<lparr>ok = True, statusText = js ''OK'', json = Inr issueWithNullDescription\<rparr>"
    by simp
  have j: "json \<lparr>ok = True, statusText = js ''OK'', json = Inr issueWithNullDescription\<rparr> =
           Inr issueWithNullDescription"
    by simp
  have d: "descriptionField (jfields issueWithNullDescription) = DObject ANull"
    by (simp add: issueWithNullDescription_def)
  from null_description_reported_missing [OF f o j] d show ?thesis by blast
qed

section \<open>The branch list\<close>












section \<open>The default branch\<close>

subsection \<open>What the pattern of line 109 captures\<close>

lemma star_Cls_hd:
  "star (rmatch (Cls p) s) (r, c) \<noteq> [] \<and>
   hd (star (rmatch (Cls p) s) (r, c)) = (dropWhile p r, c)"
proof (induction r)
  case Nil
  show ?case by (simp add: star.simps [of _ "([], c)"])
next
  case (Cons x r)
  show ?case
  proof (cases "p x")
    case True
    then have "star (rmatch (Cls p) s) (x # r, c) = star (rmatch (Cls p) s) (r, c) @ [(x # r, c)]"
      by (simp add: star.simps [of _ "(x # r, c)"])
    with Cons True show ?thesis by simp
  next
    case False
    then show ?thesis by (simp add: star.simps [of _ "(x # r, c)"])
  qed
qed

lemma Plus_Cls_Nil:
  "takeWhile p r = [] \<Longrightarrow> rmatch (Plus (Cls p)) s (r, c) = []"
  by (cases r) (auto split: if_splits)

lemma Plus_Cls_hd:
  assumes "takeWhile p r \<noteq> []"
  shows "rmatch (Plus (Cls p)) s (r, c) \<noteq> [] \<and>
         hd (rmatch (Plus (Cls p)) s (r, c)) = (dropWhile p r, c)"
proof (cases r)
  case Nil
  with assms show ?thesis by simp
next
  case (Cons x r')
  with assms have px: "p x" by (auto split: if_splits)
  with Cons have "rmatch (Plus (Cls p)) s (r, c) = star (rmatch (Cls p) s) (r', c)"
    by simp
  with star_Cls_hd [of p s r' c] Cons px show ?thesis by simp
qed

lemma take_length_dropWhile:
  "take (length r - length (dropWhile p r)) r = takeWhile p r"
proof -
  have "length r = length (takeWhile p r) + length (dropWhile p r)"
    by (metis length_append takeWhile_dropWhile_id)
  then have "length r - length (dropWhile p r) = length (takeWhile p r)" by simp
  then show ?thesis by (metis append_eq_conv_conj takeWhile_dropWhile_id)
qed

lemma rmatch_Seq_Lit:
  "rmatch (Seq (Lit w) e) s (r, c) =
     (if startsWith r w then rmatch e s (drop (length w) r, c) else [])"
  by (simp add: startsWith_def)

lemma length_HEAD_branch: "length (js ''HEAD branch: '') = 13"
  by (simp add: js_def)

lemma headBranchPattern_rmatch:
  "rmatch headBranchPattern s (r, Map.empty) =
     (if startsWith r (js ''HEAD branch: '')
      then rmatch (Group 1 (Plus (Cls (\<lambda>x. \<not> isLineTerminator x)))) s (drop 13 r, Map.empty)
      else [])"
  unfolding headBranchPattern_def rmatch_Seq_Lit length_HEAD_branch ..

lemma Group_Plus_Cls_Nil:
  "takeWhile p r = [] \<Longrightarrow> rmatch (Group k (Plus (Cls p))) s (r, c) = []"
  using Plus_Cls_Nil [of p r s c] by simp

lemma Group_Plus_Cls_hd:
  assumes "takeWhile p r \<noteq> []"
  shows "\<exists>rest. rmatch (Group k (Plus (Cls p))) s (r, c) =
           (dropWhile p r, c(k \<mapsto> takeWhile p r)) # rest"
proof -
  from Plus_Cls_hd [OF assms, of s c] obtain rest
    where "rmatch (Plus (Cls p)) s (r, c) = (dropWhile p r, c) # rest"
    by (cases "rmatch (Plus (Cls p)) s (r, c)") auto
  then show ?thesis by (simp add: take_length_dropWhile)
qed

lemma execFrom_headBranchPattern:
  "execFrom headBranchPattern s r = map_option (\<lambda>g. [1 \<mapsto> g]) (advertisedHead r)"
proof (induction r)
  case Nil
  have "\<not> startsWith [] (js ''HEAD branch: '')"
    by (simp add: startsWith_def js_def)
  then have "rmatch headBranchPattern s ([], Map.empty) = []"
    by (simp only: headBranchPattern_rmatch if_False)
  then show ?case by simp
next
  case (Cons x r)
  define q where "q = x # r"
  let ?p = "\<lambda>x. \<not> isLineTerminator x"
  have step: "execFrom headBranchPattern s q =
     (case rmatch headBranchPattern s (q, Map.empty) of
        [] \<Rightarrow> execFrom headBranchPattern s r | st # _ \<Rightarrow> Some (snd st))"
    by (simp add: q_def)
  have spec: "advertisedHead q =
     (if startsWith q (js ''HEAD branch: '') \<and> takeWhile ?p (drop 13 q) \<noteq> []
      then Some (takeWhile ?p (drop 13 q)) else advertisedHead r)"
    by (simp only: q_def advertisedHead.simps)
  show ?case
  proof (cases "startsWith q (js ''HEAD branch: '') \<and> takeWhile ?p (drop 13 q) \<noteq> []")
    case True
    with Group_Plus_Cls_hd [of ?p "drop 13 q" 1 s Map.empty] obtain rest where
      "rmatch headBranchPattern s (q, Map.empty) =
         (dropWhile ?p (drop 13 q), [1 \<mapsto> takeWhile ?p (drop 13 q)]) # rest"
      by (auto simp only: headBranchPattern_rmatch if_True)
    with True step spec show ?thesis unfolding q_def [symmetric] by (simp add: fun_eq_iff)
  next
    case False
    then have "rmatch headBranchPattern s (q, Map.empty) = []"
      using Group_Plus_Cls_Nil [of ?p "drop 13 q" 1 s Map.empty]
      by (auto simp only: headBranchPattern_rmatch split: if_splits)
    with step have "execFrom headBranchPattern s q = execFrom headBranchPattern s r"
      by simp
    moreover from False have "advertisedHead q = advertisedHead r"
      unfolding spec by (rule if_not_P)
    ultimately show ?thesis unfolding q_def [symmetric] using Cons by simp
  qed
qed

lemma advertisedHead_nonempty: "advertisedHead r = Some g \<Longrightarrow> g \<noteq> []"
  by (induction r) (auto split: if_splits)

lemma remoteHeadBranch_advertised:
  "remoteHeadBranch w p =
     (case execSync w (js ''git remote show origin'') p of
        Inl e \<Rightarrow> None
      | Inr printed \<Rightarrow> map_option trim (advertisedHead printed))"
  using advertisedHead_nonempty
  by (auto simp: remoteHeadBranch_def exec_def execFrom_headBranchPattern
      split: sum.splits option.splits)

subsection \<open>Selection\<close>

lemma find_common:
  "find (\<lambda>branch. branch \<in> set branches) commonDefaultBranches =
     (if js ''develop'' \<in> set branches then Some (js ''develop'')
      else if js ''main'' \<in> set branches then Some (js ''main'')
      else if js ''master'' \<in> set branches then Some (js ''master'')
      else None)"
  by (simp add: commonDefaultBranches_def)

lemma getDefaultBranch_unfold:
  assumes "existsSync w p" and "fst (getBranches w p) = Inr branches"
  shows "fst (getDefaultBranch w p) =
     Inr (case find (\<lambda>branch. branch \<in> set branches) commonDefaultBranches of
            Some branch \<Rightarrow> Some branch
          | None \<Rightarrow>
              (case remoteHeadBranch w p of
                 Some name \<Rightarrow> Some name
               | None \<Rightarrow> firstOf branches))"
  using assms
  by (cases "getBranches w p")
     (simp add: getDefaultBranch_def Let_def firstOf_def split: option.splits)

text \<open>
  Claim C2. For a project path that exists, with \<open>branches\<close> the list that \<open>getBranches\<close>
  returns: \<open>getDefaultBranch\<close> returns \<open>develop\<close> if it is in the list, else \<open>main\<close> if it is in
  the list, else \<open>master\<close> if it is in the list, wherever in the list they stand. If none of
  the three is in the list, it returns the HEAD branch that \<open>git remote show origin\<close>
  advertises (trimmed); if the output advertises none or the command fails, it returns the
  first branch of the list, and \<open>null\<close> if the list is empty.
\<close>

theorem getDefaultBranch_selection:
  assumes "existsSync w p" and "fst (getBranches w p) = Inr branches"
  shows
    "(js ''develop'' \<in> set branches \<longrightarrow>
        fst (getDefaultBranch w p) = Inr (Some (js ''develop''))) \<and>
     (js ''develop'' \<notin> set branches \<and> js ''main'' \<in> set branches \<longrightarrow>
        fst (getDefaultBranch w p) = Inr (Some (js ''main''))) \<and>
     (js ''develop'' \<notin> set branches \<and> js ''main'' \<notin> set branches \<and>
      js ''master'' \<in> set branches \<longrightarrow>
        fst (getDefaultBranch w p) = Inr (Some (js ''master''))) \<and>
     (js ''develop'' \<notin> set branches \<and> js ''main'' \<notin> set branches \<and>
      js ''master'' \<notin> set branches \<longrightarrow>
        (\<forall>printed name.
           execSync w (js ''git remote show origin'') p = Inr printed \<and>
           advertisedHead printed = Some name \<longrightarrow>
           fst (getDefaultBranch w p) = Inr (Some (trim name))) \<and>
        (\<forall>printed.
           execSync w (js ''git remote show origin'') p = Inr printed \<and>
           advertisedHead printed = None \<longrightarrow>
           fst (getDefaultBranch w p) = Inr (firstOf branches)) \<and>
        (\<forall>error.
           execSync w (js ''git remote show origin'') p = Inl error \<longrightarrow>
           fst (getDefaultBranch w p) = Inr (firstOf branches)))"
  by (simp add: getDefaultBranch_unfold [OF assms] find_common remoteHeadBranch_advertised)

lemmas git_eval =
  getBranches_def gitRepository_def tryCatch_def branchesOf_def js_def trim_def
  isWhiteSpace_def startsWith_def

lemma advertisedHead_remoteShowOutput: "advertisedHead remoteShowOutput = Some (js ''release'')"
  by (simp add: remoteShowOutput_def js_def startsWith_def isLineTerminator_def)

text \<open>
  Four repositories: one with all three conventional names, listed in another order; one with
  none of them and a remote whose HEAD is \<open>release\<close>; one with none of them and no remote; one
  without branches and without a remote.
\<close>

theorem getDefaultBranch_selection_witness:
  "fst (getDefaultBranch
          (gitRepository (js ''  feature\<newline>  master\<newline>* main\<newline>  develop\<newline>'') noRemote)
          (js ''/repo'')) = Inr (Some (js ''develop'')) \<and>
   fst (getDefaultBranch
          (gitRepository (js ''* work\<newline>  feature\<newline>'') (Inr remoteShowOutput))
          (js ''/repo'')) = Inr (Some (js ''release'')) \<and>
   fst (getDefaultBranch (gitRepository (js ''* work\<newline>  feature\<newline>'') noRemote)
          (js ''/repo'')) = Inr (Some (js ''work'')) \<and>
   fst (getDefaultBranch (gitRepository [] noRemote) (js ''/repo'')) = Inr None"
proof -
  let ?all = "gitRepository (js ''  feature\<newline>  master\<newline>* main\<newline>  develop\<newline>'') noRemote"
  let ?remote = "gitRepository (js ''* work\<newline>  feature\<newline>'') (Inr remoteShowOutput)"
  let ?local = "gitRepository (js ''* work\<newline>  feature\<newline>'') noRemote"
  let ?bare = "gitRepository [] noRemote"
  have ex: "existsSync (gitRepository b r) (js ''/repo'')" for b r
    by (simp add: gitRepository_def)
  have l1: "fst (getBranches ?all (js ''/repo'')) =
              Inr [js ''feature'', js ''master'', js ''main'', js ''develop'']"
    by (simp add: git_eval)
  have l2: "fst (getBranches ?remote (js ''/repo'')) = Inr [js ''work'', js ''feature'']"
    by (simp add: git_eval)
  have l3: "fst (getBranches ?local (js ''/repo'')) = Inr [js ''work'', js ''feature'']"
    by (simp add: git_eval)
  have l4: "fst (getBranches ?bare (js ''/repo'')) = Inr []"
    by (simp add: git_eval)
  have in1: "js ''develop'' \<in> set [js ''feature'', js ''master'', js ''main'', js ''develop'']"
    by simp
  have out2: "js ''develop'' \<notin> set [js ''work'', js ''feature''] \<and>
              js ''main'' \<notin> set [js ''work'', js ''feature''] \<and>
              js ''master'' \<notin> set [js ''work'', js ''feature'']"
    by (simp add: js_def)
  have r2: "execSync ?remote (js ''git remote show origin'') (js ''/repo'') = Inr remoteShowOutput"
    by (simp add: gitRepository_def js_def)
  have r3: "execSync (gitRepository b noRemote) (js ''git remote show origin'') (js ''/repo'') =
              Inl (newError (js ''Command failed: git remote show origin''))" for b
    by (simp add: gitRepository_def noRemote_def js_def)
  have t: "trim (js ''release'') = js ''release''"
    by (simp add: js_def trim_def isWhiteSpace_def)
  from getDefaultBranch_selection [OF ex l1] in1
  have 1: "fst (getDefaultBranch ?all (js ''/repo'')) = Inr (Some (js ''develop''))"
    by blast
  from getDefaultBranch_selection [OF ex l2] out2 r2 advertisedHead_remoteShowOutput
  have "fst (getDefaultBranch ?remote (js ''/repo'')) = Inr (Some (trim (js ''release'')))"
    by blast
  with t have 2: "fst (getDefaultBranch ?remote (js ''/repo'')) = Inr (Some (js ''release''))"
    by simp
  from getDefaultBranch_selection [OF ex l3] out2 r3
  have "fst (getDefaultBranch ?local (js ''/repo'')) = Inr (firstOf [js ''work'', js ''feature''])"
    by blast
  then have 3: "fst (getDefaultBranch ?local (js ''/repo'')) = Inr (Some (js ''work''))"
    by (simp add: firstOf_def)
  from getDefaultBranch_selection [OF ex l4] r3
  have "fst (getDefaultBranch ?bare (js ''/repo'')) = Inr (firstOf [])"
    by simp
  then have 4: "fst (getDefaultBranch ?bare (js ''/repo'')) = Inr None"
    by (simp add: firstOf_def)
  from 1 2 3 4 show ?thesis by simp
qed

section \<open>Ticket-ID inference\<close>

subsection \<open>The matcher on the parts of the pattern\<close>

lemma concat_map_Nil: "(\<forall>x \<in> set xs. f x = []) \<Longrightarrow> concat (map f xs) = []"
  by (induction xs) auto

lemma star_Cls_shape:
  "\<exists>rest. star (rmatch (Cls p) s) (r, c) = (dropWhile p r, c) # rest \<and>
          (\<forall>st \<in> set rest. fst st \<noteq> [] \<and> p (hd (fst st)) \<and> snd st = c)"
proof (induction r)
  case Nil
  show ?case by (simp add: star.simps [of _ "([], c)"])
next
  case (Cons x r)
  show ?case
  proof (cases "p x")
    case True
    then have unfold:
      "star (rmatch (Cls p) s) (x # r, c) = star (rmatch (Cls p) s) (r, c) @ [(x # r, c)]"
      by (simp add: star.simps [of _ "(x # r, c)"])
    from Cons obtain rest where
      rest: "star (rmatch (Cls p) s) (r, c) = (dropWhile p r, c) # rest"
        "\<forall>st \<in> set rest. fst st \<noteq> [] \<and> p (hd (fst st)) \<and> snd st = c"
      by blast
    from unfold rest True
    have "star (rmatch (Cls p) s) (x # r, c) = (dropWhile p (x # r), c) # (rest @ [(x # r, c)]) \<and>
          (\<forall>st \<in> set (rest @ [(x # r, c)]). fst st \<noteq> [] \<and> p (hd (fst st)) \<and> snd st = c)"
      by simp
    then show ?thesis by blast
  next
    case False
    then show ?thesis by (simp add: star.simps [of _ "(x # r, c)"])
  qed
qed

lemma Plus_Cls_shape:
  assumes "takeWhile p r \<noteq> []"
  shows "\<exists>rest. rmatch (Plus (Cls p)) s (r, c) = (dropWhile p r, c) # rest \<and>
           (\<forall>st \<in> set rest. fst st \<noteq> [] \<and> p (hd (fst st)) \<and> snd st = c)"
proof (cases r)
  case Nil
  with assms show ?thesis by simp
next
  case (Cons x r')
  with assms have px: "p x" by (auto split: if_splits)
  with Cons have "rmatch (Plus (Cls p)) s (r, c) = star (rmatch (Cls p) s) (r', c)"
    by simp
  with star_Cls_shape [of p s r' c] Cons px show ?thesis by simp
qed

lemma Lit_single:
  "rmatch (Lit [d]) s (q, c) = (case q of [] \<Rightarrow> [] | x # t \<Rightarrow> if x = d then [(t, c)] else [])"
  by (cases q) auto

lemma Lit_single_Nil:
  assumes "q \<noteq> []" and "hd q \<noteq> d"
  shows "rmatch (Lit [d]) s (q, c) = []"
  using assms by (cases q) (auto simp: Lit_single)

lemma rmatch_Seq: "rmatch (Seq a b) s st = concat (map (rmatch b s) (rmatch a s st))"
  by simp

lemma rmatch_Group:
  "rmatch (Group k a) s (r, c) =
     map (\<lambda>st'. (fst st', (snd st')(k \<mapsto> take (length r - length (fst st')) r)))
       (rmatch a s (r, c))"
  by simp

lemma rmatch_Bol: "rmatch Bol s (r, c) = (if length r = length s then [(r, c)] else [])"
  by simp

lemma rmatch_Star: "rmatch (Star a) s = star (rmatch a s)"
  by simp

declare rmatch.simps [simp del]

lemma js_slash: "js ''/'' = [0x2F]" and js_hyphen: "js ''-'' = [0x2D]"
  by (simp_all add: js_def)

lemma segmentRx_rmatch:
  "rmatch segmentRx s (r, c) = (case seg r of None \<Rightarrow> [] | Some r' \<Rightarrow> [(r', c)])"
proof (cases "takeWhile isWordChar r = []")
  case True
  then have "rmatch (Plus (Cls isWordChar)) s (r, c) = []" by (rule Plus_Cls_Nil)
  then have "rmatch segmentRx s (r, c) = []"
    by (simp add: segmentRx_def rmatch_Seq)
  with True show ?thesis by (simp add: seg_def)
next
  case False
  from Plus_Cls_shape [OF False, of s c] obtain rest where
    rest: "rmatch (Plus (Cls isWordChar)) s (r, c) = (dropWhile isWordChar r, c) # rest"
      "\<forall>st \<in> set rest. fst st \<noteq> [] \<and> isWordChar (hd (fst st)) \<and> snd st = c"
    by blast
  have slash: "\<not> isWordChar 0x2F" by (simp add: isWordChar_def isDigit_def)
  have "rmatch (Lit [0x2F]) s st = []" if "st \<in> set rest" for st
  proof -
    from that rest(2) have "fst st \<noteq> []" "isWordChar (hd (fst st))" by auto
    with slash have "fst st \<noteq> []" "hd (fst st) \<noteq> 0x2F" by auto
    then show ?thesis using Lit_single_Nil [of "fst st" "0x2F" s "snd st"] by simp
  qed
  then have "concat (map (rmatch (Lit [0x2F]) s) rest) = []"
    by (intro concat_map_Nil) blast
  with rest(1)
  have eq: "rmatch segmentRx s (r, c) = rmatch (Lit [0x2F]) s (dropWhile isWordChar r, c)"
    by (simp add: segmentRx_def js_slash rmatch_Seq)
  from False have sg: "seg r =
      (case dropWhile isWordChar r of [] \<Rightarrow> None | d # t \<Rightarrow> if d = 0x2F then Some t else None)"
    by (simp add: seg_def)
  show ?thesis
  proof (cases "dropWhile isWordChar r")
    case Nil
    show ?thesis unfolding eq sg Lit_single Nil by simp
  next
    case (Cons d t)
    show ?thesis unfolding eq sg Lit_single Cons by simp
  qed
qed

lemma seg_shorter: "seg r = Some r' \<Longrightarrow> length r' < length r"
proof -
  assume "seg r = Some r'"
  then have "dropWhile isWordChar r = 0x2F # r'"
    by (auto simp: seg_def split: if_splits list.splits)
  moreover have "length (dropWhile isWordChar r) \<le> length r"
    by (rule length_dropWhile_le)
  ultimately show ?thesis by simp
qed

lemma star_segmentRx:
  "star (rmatch segmentRx s) (r, c) =
     (case seg r of
        None \<Rightarrow> [(r, c)]
      | Some r' \<Rightarrow> star (rmatch segmentRx s) (r', c) @ [(r, c)])"
proof (cases "seg r")
  case None
  then show ?thesis
    by (subst star.simps) (simp add: segmentRx_rmatch)
next
  case (Some r')
  with seg_shorter have "length r' < length r" by blast
  with Some show ?thesis
    by (subst star.simps) (simp add: segmentRx_rmatch)
qed

lemma dropWhile_notHyphen:
  "dropWhile notHyphen r = h # t \<Longrightarrow> h = 0x2D"
  using hd_dropWhile [of notHyphen r] by (auto simp: notHyphen_def)

lemma numberRx_rmatch_Nil:
  assumes "q = [] \<or> hd q \<noteq> 0x2D \<or> takeWhile isDigit (tl q) = []"
  shows "rmatch numberRx s (q, c) = []"
proof (cases "startsWith q [0x2D]")
  case False
  then show ?thesis by (simp add: numberRx_def js_hyphen rmatch_Seq_Lit)
next
  case True
  then have q: "q \<noteq> []" "hd q = 0x2D" by (cases q; simp add: startsWith_def)+
  with assms have "takeWhile isDigit (drop 1 q) = []" by (simp add: drop_Suc)
  then have "rmatch (Group 2 (Plus (Cls isDigit))) s (drop 1 q, c) = []"
    by (rule Group_Plus_Cls_Nil)
  with True show ?thesis by (simp add: numberRx_def js_hyphen rmatch_Seq_Lit)
qed

lemma numberRx_rmatch_hd:
  assumes "takeWhile isDigit t \<noteq> []"
  shows "\<exists>rest. rmatch numberRx s (0x2D # t, c) =
           (dropWhile isDigit t, c(2 \<mapsto> takeWhile isDigit t)) # rest"
  using Group_Plus_Cls_hd [OF assms, of 2 s c]
  by (simp add: numberRx_def js_hyphen rmatch_Seq_Lit startsWith_def)

lemma keyRx_rmatch_Nil:
  assumes "\<not> keyed r"
  shows "rmatch keyRx s (r, c) = []"
proof (cases "takeWhile notHyphen r = []")
  case True
  then have "rmatch (Plus (Cls notHyphen)) s (r, c) = []" by (rule Plus_Cls_Nil)
  then show ?thesis by (simp add: keyRx_def rmatch_Seq rmatch_Group)
next
  case False
  from Plus_Cls_shape [OF False, of s c] obtain rest where
    rest: "rmatch (Plus (Cls notHyphen)) s (r, c) = (dropWhile notHyphen r, c) # rest"
      "\<forall>st \<in> set rest. fst st \<noteq> [] \<and> notHyphen (hd (fst st)) \<and> snd st = c"
    by blast
  have "rmatch numberRx s (fst st, c') = []" if "st \<in> set rest" for st c'
  proof -
    from that rest(2) have "hd (fst st) \<noteq> 0x2D" by (auto simp: notHyphen_def)
    then show ?thesis by (intro numberRx_rmatch_Nil) simp
  qed
  then have others:
    "concat (map (rmatch numberRx s)
       (map (\<lambda>st'. (fst st', (snd st')(1 \<mapsto> take (length r - length (fst st')) r))) rest)) = []"
    by (intro concat_map_Nil) auto
  from assms False have "dropWhile notHyphen r = [] \<or>
      takeWhile isDigit (tl (dropWhile notHyphen r)) = []"
    by (auto simp: keyed_def split: list.splits)
  then have "rmatch numberRx s (dropWhile notHyphen r, c') = []" for c'
    by (intro numberRx_rmatch_Nil) auto
  with rest(1) others show ?thesis
    by (simp add: keyRx_def rmatch_Seq rmatch_Group)
qed

lemma keyRx_rmatch_hd:
  assumes "keyed r"
  shows "\<exists>rest. rmatch keyRx s (r, c) =
           (dropWhile isDigit (tl (dropWhile notHyphen r)),
            c(1 \<mapsto> takeWhile notHyphen r, 2 \<mapsto> takeWhile isDigit (tl (dropWhile notHyphen r))))
           # rest"
proof -
  from assms have key: "takeWhile notHyphen r \<noteq> []" by (simp add: keyed_def)
  from assms obtain h t where ht: "dropWhile notHyphen r = h # t" "takeWhile isDigit t \<noteq> []"
    by (auto simp: keyed_def split: list.splits)
  with dropWhile_notHyphen have h: "h = 0x2D" by blast
  from Plus_Cls_shape [OF key, of s c] obtain rest where
    rest: "rmatch (Plus (Cls notHyphen)) s (r, c) = (dropWhile notHyphen r, c) # rest"
    by blast
  from numberRx_rmatch_hd [OF ht(2), of s "c(1 \<mapsto> takeWhile notHyphen r)"] obtain rest' where
    "rmatch numberRx s (0x2D # t, c(1 \<mapsto> takeWhile notHyphen r)) =
       (dropWhile isDigit t, c(1 \<mapsto> takeWhile notHyphen r, 2 \<mapsto> takeWhile isDigit t)) # rest'"
    by blast
  moreover have "take (length r - length (dropWhile notHyphen r)) r = takeWhile notHyphen r"
    by (rule take_length_dropWhile)
  with ht(1) have "take (length r - Suc (length t)) r = takeWhile notHyphen r" by simp
  ultimately show ?thesis using rest ht h
    by (simp add: keyRx_def rmatch_Seq rmatch_Group)
qed

subsection \<open>Segments and the start of the key\<close>

lemma seg_split:
  assumes "seg r = Some r'"
  shows "r = takeWhile isWordChar r @ 0x2F # r'" and "takeWhile isWordChar r \<noteq> []"
proof -
  from assms show ne: "takeWhile isWordChar r \<noteq> []"
    by (auto simp: seg_def split: if_splits)
  from assms have "dropWhile isWordChar r = 0x2F # r'"
    by (auto simp: seg_def split: if_splits list.splits)
  then show "r = takeWhile isWordChar r @ 0x2F # r'"
    by (metis takeWhile_dropWhile_id)
qed

lemma isWordChar_notHyphen: "isWordChar x \<Longrightarrow> notHyphen x"
  by (auto simp: isWordChar_def isDigit_def notHyphen_def)

lemma seg_notHyphen:
  assumes "seg r = Some r'"
  shows "dropWhile notHyphen r = dropWhile notHyphen r'" and "takeWhile notHyphen r \<noteq> []"
proof -
  let ?u = "takeWhile isWordChar r"
  from seg_split [OF assms] have r: "r = ?u @ 0x2F # r'" and u: "?u \<noteq> []" by auto
  have all: "\<And>x. x \<in> set (?u @ [0x2F]) \<Longrightarrow> notHyphen x"
  proof -
    fix x assume "x \<in> set (?u @ [0x2F])"
    then have "isWordChar x \<or> x = 0x2F" by (auto dest: set_takeWhileD)
    then show "notHyphen x" using isWordChar_notHyphen by (auto simp: notHyphen_def)
  qed
  have "dropWhile notHyphen ((?u @ [0x2F]) @ r') = dropWhile notHyphen r'"
    using all by (rule dropWhile_append2)
  with r show "dropWhile notHyphen r = dropWhile notHyphen r'" by simp
  from u have "hd r = hd ?u" using r by (metis hd_append2)
  moreover from u have "hd ?u \<in> set ?u" by simp
  then have "notHyphen (hd ?u)" using all by simp
  moreover from r u have "r \<noteq> []" by auto
  ultimately show "takeWhile notHyphen r \<noteq> []" by (cases r) auto
qed

lemma keyStart_Some:
  "keyStart r = Some q \<Longrightarrow>
     takeWhile notHyphen q \<noteq> [] \<and> dropWhile notHyphen q = dropWhile notHyphen r"
proof (induction r rule: keyStart.induct)
  case (1 r)
  show ?case
  proof (cases "seg r")
    case None
    with "1.prems" show ?thesis
      by (subst (asm) keyStart.simps) (auto split: if_splits)
  next
    case (Some r')
    show ?thesis
    proof (cases "keyStart r'")
      case None
      with Some "1.prems" have "q = r"
        by (subst (asm) keyStart.simps) simp
      with seg_notHyphen [OF Some] show ?thesis by simp
    next
      case (Some q')
      with \<open>seg r = Some r'\<close> "1.prems" have "q = q'"
        by (subst (asm) keyStart.simps) simp
      with "1.IH" [OF \<open>seg r = Some r'\<close>] Some seg_notHyphen(1) [OF \<open>seg r = Some r'\<close>]
      show ?thesis by simp
    qed
  qed
qed

lemma keyed_cong:
  "takeWhile notHyphen q \<noteq> [] \<Longrightarrow> takeWhile notHyphen r \<noteq> [] \<Longrightarrow>
     dropWhile notHyphen q = dropWhile notHyphen r \<Longrightarrow> keyed q = keyed r"
  by (simp add: keyed_def)

lemma afterSegments_unfold:
  "afterSegments s r c =
     (case seg r of
        None \<Rightarrow> rmatch keyRx s (r, c)
      | Some r' \<Rightarrow> afterSegments s r' c @ rmatch keyRx s (r, c))"
  unfolding afterSegments_def
  by (subst star_segmentRx) (simp split: option.splits)

lemma keyRx_rmatch_keyed:
  "keyed r \<Longrightarrow> rmatch keyRx s (r, c) \<noteq> []"
  using keyRx_rmatch_hd [of r s c] by auto

lemma afterSegments_keyStart:
  "(case keyStart r of
      None \<Rightarrow> afterSegments s r c = []
    | Some q \<Rightarrow>
        if keyed q
        then afterSegments s r c \<noteq> [] \<and>
             hd (afterSegments s r c) = hd (rmatch keyRx s (q, c))
        else afterSegments s r c = [])"
proof (induction r rule: keyStart.induct)
  case (1 r)
  show ?case
  proof (cases "seg r")
    case None
    then have a: "afterSegments s r c = rmatch keyRx s (r, c)"
      by (subst afterSegments_unfold) simp
    show ?thesis
    proof (cases "takeWhile notHyphen r = []")
      case True
      with None have "keyStart r = None" by (subst keyStart.simps) simp
      moreover from True have "\<not> keyed r" by (simp add: keyed_def)
      ultimately show ?thesis using a keyRx_rmatch_Nil by simp
    next
      case False
      with None have "keyStart r = Some r" by (subst keyStart.simps) simp
      then show ?thesis using a keyRx_rmatch_Nil [of r s c] keyRx_rmatch_keyed [of r s c]
        by simp
    qed
  next
    case (Some r')
    then have a: "afterSegments s r c = afterSegments s r' c @ rmatch keyRx s (r, c)"
      by (subst afterSegments_unfold) simp
    note ih = "1.IH" [OF Some]
    show ?thesis
    proof (cases "keyStart r'")
      case None
      with Some have k: "keyStart r = Some r" by (subst keyStart.simps) simp
      from None ih have "afterSegments s r' c = []" by simp
      with a have "afterSegments s r c = rmatch keyRx s (r, c)" by simp
      with k show ?thesis using keyRx_rmatch_Nil [of r s c] keyRx_rmatch_keyed [of r s c]
        by simp
    next
      case (Some q)
      with \<open>seg r = Some r'\<close> have k: "keyStart r = Some q" by (subst keyStart.simps) simp
      show ?thesis
      proof (cases "keyed q")
        case True
        with Some ih have "afterSegments s r' c \<noteq> []"
          "hd (afterSegments s r' c) = hd (rmatch keyRx s (q, c))" by simp_all
        with a k True show ?thesis by simp
      next
        case False
        with Some ih have e: "afterSegments s r' c = []" by simp
        from keyStart_Some [OF Some] seg_notHyphen [OF \<open>seg r = Some r'\<close>]
        have "keyed q = keyed r" by (intro keyed_cong) simp_all
        with False have "rmatch keyRx s (r, c) = []" by (intro keyRx_rmatch_Nil) simp
        with a e k False show ?thesis by simp
      qed
    qed
  qed
qed

subsection \<open>The whole pattern\<close>

lemma notHyphen_eq: "(\<lambda>c. c \<noteq> 0x2D) = notHyphen"
  by (simp add: fun_eq_iff notHyphen_def)

lemma ticketIdPattern_parts: "ticketIdPattern = Seq Bol (Seq (Star segmentRx) keyRx)"
  by (simp add: ticketIdPattern_def segmentRx_def keyRx_def numberRx_def notHyphen_eq)

lemma ticketIdPattern_at_start:
  "rmatch ticketIdPattern s (s, c) = afterSegments s s c"
  by (simp add: ticketIdPattern_parts rmatch_Seq [of Bol] rmatch_Bol
      rmatch_Seq [of "Star segmentRx"] rmatch_Star afterSegments_def)

lemma ticketIdPattern_later:
  "length r < length s \<Longrightarrow> rmatch ticketIdPattern s (r, c) = []"
  by (simp add: ticketIdPattern_parts rmatch_Seq [of Bol] rmatch_Bol)

lemma execFrom_later:
  "length r < length s \<Longrightarrow> execFrom ticketIdPattern s r = None"
  by (induction r) (simp_all add: ticketIdPattern_later)

lemma exec_ticketIdPattern:
  "exec ticketIdPattern s =
     (case afterSegments s s Map.empty of [] \<Rightarrow> None | st # _ \<Rightarrow> Some (snd st))"
proof (cases s)
  case Nil
  then show ?thesis
    using ticketIdPattern_at_start [of "[]" Map.empty] by (simp add: exec_def)
next
  case (Cons x r)
  then have "execFrom ticketIdPattern s r = None" by (intro execFrom_later) simp
  with Cons show ?thesis
    using ticketIdPattern_at_start [of s Map.empty] by (simp add: exec_def split: list.splits)
qed

lemma exec_ticketIdPattern_keyed:
  assumes "keyStart b = Some q" and "keyed q"
  shows "exec ticketIdPattern b =
           Some [1 \<mapsto> takeWhile notHyphen q,
                 2 \<mapsto> takeWhile isDigit (tl (dropWhile notHyphen q))]"
proof -
  from assms afterSegments_keyStart [of b b Map.empty]
  have ne: "afterSegments b b Map.empty \<noteq> []"
    and h: "hd (afterSegments b b Map.empty) = hd (rmatch keyRx b (q, Map.empty))"
    by simp_all
  from keyRx_rmatch_hd [OF assms(2), of b Map.empty] h
  have "snd (hd (afterSegments b b Map.empty)) =
          [1 \<mapsto> takeWhile notHyphen q, 2 \<mapsto> takeWhile isDigit (tl (dropWhile notHyphen q))]"
    by auto
  with ne show ?thesis
    by (cases "afterSegments b b Map.empty") (simp_all add: exec_ticketIdPattern)
qed

lemma exec_ticketIdPattern_None:
  assumes "keyStart b = None \<or> (\<exists>q. keyStart b = Some q \<and> \<not> keyed q)"
  shows "exec ticketIdPattern b = None"
proof -
  from assms afterSegments_keyStart [of b b Map.empty]
  have "afterSegments b b Map.empty = []" by auto
  then show ?thesis by (simp add: exec_ticketIdPattern)
qed

lemma ticketIdSpec_keyed:
  assumes "keyStart b = Some q"
  shows "ticketIdSpec b =
           (if keyed q
            then Some (takeWhile notHyphen q @ js ''-'' @
                       takeWhile isDigit (tl (dropWhile notHyphen q)))
            else None)"
proof -
  from keyStart_Some [OF assms] have key: "takeWhile notHyphen q \<noteq> []" by simp
  show ?thesis
  proof (cases "dropWhile notHyphen q")
    case Nil
    then have "\<not> keyed q" by (simp only: keyed_def list.case simp_thms)
    with Nil show ?thesis
      by (simp only: ticketIdSpec_def assms option.case list.case if_False)
  next
    case (Cons h t)
    then have sp: "ticketIdSpec b =
        (if takeWhile isDigit t = [] then None
         else Some (takeWhile notHyphen q @ js ''-'' @ takeWhile isDigit t))"
      by (simp only: ticketIdSpec_def assms option.case list.case)
    from Cons key have kq: "keyed q = (takeWhile isDigit t \<noteq> [])"
      by (simp only: keyed_def list.case simp_thms)
    from Cons have tl: "tl (dropWhile notHyphen q) = t" by (simp only: list.sel)
    show ?thesis unfolding sp kq tl by simp
  qed
qed

lemma inferTicketId_spec: "inferTicketId b = ticketIdSpec b"
proof (cases "keyStart b")
  case None
  with exec_ticketIdPattern_None [of b] show ?thesis
    by (simp add: inferTicketId_def ticketIdSpec_def)
next
  case (Some q)
  show ?thesis
  proof (cases "keyed q")
    case False
    with Some exec_ticketIdPattern_None [of b] ticketIdSpec_keyed [OF Some] show ?thesis
      by (simp add: inferTicketId_def)
  next
    case True
    with exec_ticketIdPattern_keyed [OF Some True] ticketIdSpec_keyed [OF Some] show ?thesis
      by (simp add: inferTicketId_def captured_def)
  qed
qed

lemma keyStart_suffix:
  "keyStart r = Some q \<Longrightarrow> \<exists>prefix. r = prefix @ q \<and> slashPrefix prefix"
proof (induction r rule: keyStart.induct)
  case (1 r)
  show ?case
  proof (cases "seg r")
    case None
    with "1.prems" have "q = r"
      by (subst (asm) keyStart.simps) (auto split: if_splits)
    then have "r = [] @ q \<and> slashPrefix []" by (simp add: slashPrefix.none)
    then show ?thesis by blast
  next
    case (Some r')
    show ?thesis
    proof (cases "keyStart r'")
      case None
      with Some "1.prems" have "q = r"
        by (subst (asm) keyStart.simps) simp
      then have "r = [] @ q \<and> slashPrefix []" by (simp add: slashPrefix.none)
      then show ?thesis by blast
    next
      case (Some q')
      with \<open>seg r = Some r'\<close> "1.prems" have "q = q'"
        by (subst (asm) keyStart.simps) simp
      with "1.IH" [OF \<open>seg r = Some r'\<close>] Some obtain p where
        p: "r' = p @ q" "slashPrefix p" by auto
      let ?w = "takeWhile isWordChar r"
      from seg_split [OF \<open>seg r = Some r'\<close>] have r: "r = ?w @ 0x2F # r'" and w: "?w \<noteq> []"
        by auto
      have wc: "\<forall>c \<in> set ?w. isWordChar c" by (auto dest: set_takeWhileD)
      from w wc p(2) have "slashPrefix (?w @ js ''/'' @ p)" by (rule slashPrefix.segment)
      moreover from r p(1) have "r = (?w @ js ''/'' @ p) @ q" by (simp add: js_slash)
      ultimately show ?thesis by blast
    qed
  qed
qed

text \<open>
  Claim C5. Whenever an identifier is inferred from a branch name, the pattern has matched
  with two captured groups, a key and a number, and the identifier is the key, a hyphen and
  the number; the branch name is a prefix of slash-terminated word segments (possibly empty),
  the key (non-empty, without hyphen), a hyphen, the number (one or more digits) and a rest.
  When the pattern does not match, no identifier is inferred. The inference agrees with the
  explicit parser on every branch name. From \<open>feature/PROJ-123-add-button\<close> it infers
  \<open>PROJ-123\<close>, and from \<open>hotfix\<close> nothing.
\<close>

theorem inferTicketId_pattern:
  "(\<forall>t. inferTicketId b = Some t \<longrightarrow>
      (\<exists>matches prefix key number rest.
         exec ticketIdPattern b = Some matches \<and>
         matches 1 = Some key \<and> matches 2 = Some number \<and>
         t = key @ js ''-'' @ number \<and>
         b = prefix @ key @ js ''-'' @ number @ rest \<and> slashPrefix prefix \<and>
         key \<noteq> [] \<and> 0x2D \<notin> set key \<and> number \<noteq> [] \<and> (\<forall>c \<in> set number. isDigit c))) \<and>
   (exec ticketIdPattern b = None \<longrightarrow> inferTicketId b = None) \<and>
   inferTicketId b = ticketIdSpec b \<and>
   inferTicketId (js ''feature/PROJ-123-add-button'') = Some (js ''PROJ-123'') \<and>
   inferTicketId (js ''hotfix'') = None"
proof -
  have shape: "\<exists>matches prefix key number rest.
         exec ticketIdPattern b = Some matches \<and>
         matches 1 = Some key \<and> matches 2 = Some number \<and>
         t = key @ js ''-'' @ number \<and>
         b = prefix @ key @ js ''-'' @ number @ rest \<and> slashPrefix prefix \<and>
         key \<noteq> [] \<and> 0x2D \<notin> set key \<and> number \<noteq> [] \<and> (\<forall>c \<in> set number. isDigit c)"
    if t: "inferTicketId b = Some t" for t
  proof -
    from t have spec: "ticketIdSpec b = Some t" by (simp add: inferTicketId_spec)
    then obtain q where q: "keyStart b = Some q"
      by (cases "keyStart b") (simp_all add: ticketIdSpec_def)
    let ?k = "takeWhile notHyphen q"
    let ?n = "takeWhile isDigit (tl (dropWhile notHyphen q))"
    from spec ticketIdSpec_keyed [OF q] have keyed: "keyed q" and t': "t = ?k @ js ''-'' @ ?n"
      by (auto split: if_splits)
    from keyed have k: "?k \<noteq> []" and n: "?n \<noteq> []"
      by (auto simp: keyed_def split: list.splits)
    from keyed obtain h tl' where ht: "dropWhile notHyphen q = h # tl'"
      by (auto simp: keyed_def split: list.splits)
    with dropWhile_notHyphen have "dropWhile notHyphen q = 0x2D # tl'" by blast
    then have "q = ?k @ 0x2D # tl'" by (metis takeWhile_dropWhile_id)
    moreover have "tl' = takeWhile isDigit tl' @ dropWhile isDigit tl'" by simp
    ultimately have "q = ?k @ js ''-'' @ ?n @ dropWhile isDigit tl'"
      using ht by (simp add: js_hyphen)
    moreover from keyStart_suffix [OF q] obtain prefix where
      "b = prefix @ q" "slashPrefix prefix" by blast
    ultimately have b: "b = prefix @ ?k @ js ''-'' @ ?n @ dropWhile isDigit tl'"
      "slashPrefix prefix" by simp_all
    have "0x2D \<notin> set ?k" by (auto dest: set_takeWhileD simp: notHyphen_def)
    moreover have "\<forall>c \<in> set ?n. isDigit c" by (auto dest: set_takeWhileD)
    moreover note exec_ticketIdPattern_keyed [OF q keyed] t' b k n
    ultimately show ?thesis by (intro exI [of _ "[1 \<mapsto> ?k, 2 \<mapsto> ?n]"] exI conjI) simp_all
  qed
  have none: "exec ticketIdPattern b = None \<longrightarrow> inferTicketId b = None"
    by (simp add: inferTicketId_def)
  have ex1: "ticketIdSpec (js ''feature/PROJ-123-add-button'') = Some (js ''PROJ-123'')"
    by code_simp
  have ex2: "ticketIdSpec (js ''hotfix'') = None"
    by code_simp
  from shape none ex1 ex2 show ?thesis by (simp add: inferTicketId_spec)
qed

text \<open>A branch name with two segments before the key.\<close>

theorem inferTicketId_pattern_witness:
  "inferTicketId (js ''bugfix/ui/WEB-42'') = Some (js ''WEB-42'') \<and>
   (\<exists>matches prefix key number rest.
      exec ticketIdPattern (js ''bugfix/ui/WEB-42'') = Some matches \<and>
      matches 1 = Some key \<and> matches 2 = Some number \<and>
      js ''WEB-42'' = key @ js ''-'' @ number \<and>
      js ''bugfix/ui/WEB-42'' = prefix @ key @ js ''-'' @ number @ rest \<and> slashPrefix prefix \<and>
      key \<noteq> [] \<and> 0x2D \<notin> set key \<and> number \<noteq> [] \<and> (\<forall>c \<in> set number. isDigit c))"
proof -
  have h: "inferTicketId (js ''bugfix/ui/WEB-42'') = Some (js ''WEB-42'')"
    by code_simp
  with inferTicketId_pattern [of "js ''bugfix/ui/WEB-42''"] show ?thesis by blast
qed

end
